theory Spec2Isabelle
  imports Complex_Main "HOL-Library.Char_ord" "HOL-Library.List_Lexorder" "HOL-Library.Multiset"
begin

section \<open>Expert ranking engine and record cache\<close>

text \<open>
  A shallow embedding of \<^verbatim>\<open>src/query.py\<close> (class \<^verbatim>\<open>ExpertFinder\<close>),
  \<^verbatim>\<open>src/cache_manager.py\<close> (class \<^verbatim>\<open>PRCacheManager\<close> and
  \<^verbatim>\<open>get_or_scrape_repos\<close>), \<^verbatim>\<open>src/embedder.py\<close>
  (\<^verbatim>\<open>PREmbedder.generate_embedding\<close>) and the constants of \<^verbatim>\<open>config.py\<close>.

  Conventions of the embedding:
  \<^item> Python \<^verbatim>\<open>float\<close> values are modelled as \<^typ>\<open>real\<close>: the arithmetic of the
    scores is the exact one, rounding is not modelled.
  \<^item> Python \<^verbatim>\<open>int\<close> values are \<^typ>\<open>int\<close>; results of \<^verbatim>\<open>len\<close> are \<^typ>\<open>nat\<close>.
  \<^item> A pull-request dictionary is a record whose fields are optional: \<open>None\<close> is a
    missing key, and every read \<^verbatim>\<open>pr.get(key, default)\<close> of the source is an accessor
    \<open>get_key\<close> that supplies the default written in the source.
  \<^item> Exceptions are values of a sum type, \<open>Inl\<close> carrying the error.
\<close>

subsection \<open>Configuration (\<^verbatim>\<open>config.py\<close>)\<close>

definition MIN_SUBSTANTIAL_PR_LINES :: int where
  "MIN_SUBSTANTIAL_PR_LINES = 100"

definition MIN_EXPERT_PRS :: nat where
  "MIN_EXPERT_PRS = 2"

definition MIN_EXPERT_TOTAL_LINES :: int where
  "MIN_EXPERT_TOTAL_LINES = 500"

subsection \<open>Errors\<close>

datatype py_error =
  IndexError | ScrapeError string | EmbedError string | SearchError string | LoadError string

subsection \<open>Pull-request dictionaries\<close>

record pr =
  title :: "string option"
  pr_url :: "string option"
  repo :: "string option"
  author :: "string option"
  tech_keywords :: "string list option"
  lines_changed :: "int option"
  merged_date :: "string option"
  similarity_score :: "real option"
  complexity_score :: "real option"
  impact_score :: "real option"
  impact_category :: "string option"
  has_tests :: "bool option"
  has_docs :: "bool option"
  review_comments_count :: "int option"
  files_changed :: "int option"
  commits_count :: "int option"

text \<open>\<^verbatim>\<open>d.get(key, default)\<close>.\<close>

definition dict_get :: "'a option \<Rightarrow> 'a \<Rightarrow> 'a" where
  "dict_get v d = (case v of None \<Rightarrow> d | Some x \<Rightarrow> x)"

definition get_author :: "pr \<Rightarrow> string" where
  "get_author p = dict_get (author p) ''''"

definition get_similarity_score :: "pr \<Rightarrow> real" where
  "get_similarity_score p = dict_get (similarity_score p) 0"

definition get_lines_changed :: "pr \<Rightarrow> int" where
  "get_lines_changed p = dict_get (lines_changed p) 0"

definition get_complexity_score :: "pr \<Rightarrow> real" where
  "get_complexity_score p = dict_get (complexity_score p) 0.5"

definition get_impact_score :: "pr \<Rightarrow> real" where
  "get_impact_score p = dict_get (impact_score p) 0.5"

definition get_has_tests :: "pr \<Rightarrow> bool" where
  "get_has_tests p = dict_get (has_tests p) False"

definition get_has_docs :: "pr \<Rightarrow> bool" where
  "get_has_docs p = dict_get (has_docs p) False"

definition get_review_comments_count :: "pr \<Rightarrow> int" where
  "get_review_comments_count p = dict_get (review_comments_count p) 0"

definition get_tech_keywords :: "pr \<Rightarrow> string list" where
  "get_tech_keywords p = dict_get (tech_keywords p) []"

definition get_merged_date :: "pr \<Rightarrow> string" where
  "get_merged_date p = dict_get (merged_date p) ''''"

subsection \<open>The per-candidate combined score (\<^verbatim>\<open>combined_score\<close>, query.py 124-155)\<close>

definition combined_score :: "pr \<Rightarrow> real" where
  "combined_score p =
    (let similarity = get_similarity_score p;
         lines = get_lines_changed p;
         lines_normalized = min (real_of_int lines / 5000) 1;
         size_boost = (if lines \<ge> MIN_SUBSTANTIAL_PR_LINES
                       then 0.15 * lines_normalized
                       else 0.05 * lines_normalized);
         complexity = get_complexity_score p;
         complexity_boost = complexity * 0.10;
         impact = get_impact_score p;
         impact_boost = impact * 0.08;
         q0 = (0::real);
         q1 = (if get_has_tests p then q0 + 0.03 else q0);
         q2 = (if get_has_docs p then q1 + 0.02 else q1);
         quality_boost = (if get_review_comments_count p > 5 then q2 + 0.03 else q2)
     in similarity * (1 + size_boost + complexity_boost + impact_boost + quality_boost))"

text \<open>The boosts as the specification words them.\<close>

definition sizeBoost :: "int \<Rightarrow> real" where
  "sizeBoost lines =
     min (real_of_int lines / 5000) 1 *
       (if lines \<ge> MIN_SUBSTANTIAL_PR_LINES then 0.15 else 0.05)"

definition complexityBoost :: "pr \<Rightarrow> real" where
  "complexityBoost p = get_complexity_score p * 0.10"

definition impactBoost :: "pr \<Rightarrow> real" where
  "impactBoost p = get_impact_score p * 0.08"

definition indicator :: "bool \<Rightarrow> real" where
  "indicator b = (if b then 1 else 0)"

definition qualityBoost :: "pr \<Rightarrow> real" where
  "qualityBoost p =
     0.03 * indicator (get_has_tests p) + 0.02 * indicator (get_has_docs p)
       + 0.03 * indicator (get_review_comments_count p > 5)"

subsection \<open>Python list helpers\<close>

text \<open>
  \<^verbatim>\<open>xs.sort(key=k, reverse=True)\<close> and \<^verbatim>\<open>sorted(xs, key=k, reverse=True)\<close>: a stable sort
  in descending order of the key. CPython reverses the list, sorts it stably in ascending
  order and reverses the result, so that elements with equal keys keep their original
  order; \<open>sort_key\<close> is a stable insertion sort.
\<close>

definition sort_desc :: "('a \<Rightarrow> 'k::linorder) \<Rightarrow> 'a list \<Rightarrow> 'a list" where
  "sort_desc k xs = rev (sort_key k (rev xs))"

text \<open>\<^verbatim>\<open>xs[:n]\<close> for an integer \<open>n\<close>: a negative \<open>n\<close> counts from the end.\<close>

definition slice_to :: "'a list \<Rightarrow> int \<Rightarrow> 'a list" where
  "slice_to xs n =
     (if n < 0 then take (nat (int (length xs) + n)) xs else take (nat n) xs)"

subsection \<open>Grouping by author (query.py 110-115)\<close>

text \<open>
  \<^verbatim>\<open>author_prs\<close> is a \<^verbatim>\<open>defaultdict(list)\<close>; a dictionary keeps its keys in
  insertion order, so it is an association list. \<open>append_to\<close> is
  \<^verbatim>\<open>author_prs[author].append(pr)\<close>.
\<close>

fun append_to :: "string \<Rightarrow> pr \<Rightarrow> (string \<times> pr list) list \<Rightarrow> (string \<times> pr list) list" where
  "append_to a p [] = [(a, [p])]"
| "append_to a p ((b, ps) # rest) =
     (if a = b then (b, ps @ [p]) # rest else (b, ps) # append_to a p rest)"

definition group_step :: "(string \<times> pr list) list \<Rightarrow> pr \<Rightarrow> (string \<times> pr list) list" where
  "group_step author_prs p =
     (let a = get_author p in if a \<noteq> [] then append_to a p author_prs else author_prs)"

definition group_by_author :: "pr list \<Rightarrow> (string \<times> pr list) list" where
  "group_by_author prs = foldl group_step [] prs"

subsection \<open>Technology frequencies and depth (query.py 170-191)\<close>

text \<open>\<^verbatim>\<open>tech_frequency[tech] += 1\<close> on a \<^verbatim>\<open>defaultdict(int)\<close>.\<close>

fun bump :: "string \<Rightarrow> (string \<times> int) list \<Rightarrow> (string \<times> int) list" where
  "bump t [] = [(t, 1)]"
| "bump t ((k, c) # rest) = (if t = k then (k, c + 1) # rest else (k, c) # bump t rest)"

definition tech_frequency :: "pr list \<Rightarrow> (string \<times> int) list" where
  "tech_frequency prs_list =
     foldl (\<lambda>freq p. foldl (\<lambda>f t. bump t f) freq (get_tech_keywords p)) [] prs_list"

definition tech_depth_score_of :: "(string \<times> int) list \<Rightarrow> real" where
  "tech_depth_score_of freq =
     (if freq \<noteq> [] then
        (let top_techs = take 3 (sort_desc snd freq);
             avg_top_frequency =
               real_of_int (sum_list (map snd top_techs)) / real (length top_techs)
         in min (avg_top_frequency / 5) 1)
      else 0)"

subsection \<open>Recency (\<^verbatim>\<open>_calculate_recency_score\<close>, query.py 275-302)\<close>

text \<open>
  The parameter \<open>age_days_of\<close> stands for the clock and the date parser:
  \<open>age_days_of d\<close> is \<^verbatim>\<open>(now - fromisoformat(d)).days\<close>, and \<open>None\<close> when parsing
  raises (the \<^verbatim>\<open>except\<close> branch).
\<close>

definition calculate_recency_score :: "(string \<Rightarrow> int option) \<Rightarrow> string \<Rightarrow> real" where
  "calculate_recency_score age_days_of md =
     (if md = [] then 0
      else case age_days_of md of
             None \<Rightarrow> 0
           | Some age_days \<Rightarrow> max 0 (min 1 (exp (- 0.001 * real_of_int age_days))))"

subsection \<open>Scoring one author (query.py 119-251)\<close>

record expert =
  expert_author :: string
  github_url :: string
  score :: real
  expert_similarity_score :: real
  recency_score :: real
  tech_depth_score :: real
  best_pr :: pr
  top_prs :: "pr list"
  tech_expertise :: "string list"
  tech_specialization :: "(string \<times> int) list"
  total_relevant_prs :: nat
  total_lines_changed :: int
  substantial_prs_count :: nat

text \<open>The weights \<^verbatim>\<open>[1.0, 0.8, 0.6, 0.4, 0.2]\<close> of query.py 167.\<close>

definition position_weights :: "real list" where
  "position_weights = [1.0, 0.8, 0.6, 0.4, 0.2]"

text \<open>query.py 165-168, on the sorted group.\<close>

definition weighted_avg_of :: "pr list \<Rightarrow> real" where
  "weighted_avg_of prs_list =
     (let top_5_prs = take 5 prs_list;
          top_5_scores = map combined_score top_5_prs;
          weights = take (length top_5_scores) position_weights
      in sum_list (map (\<lambda>(s, w). s * w) (zip top_5_scores weights)) / sum_list weights)"

text \<open>query.py 193-203, on the sorted group.\<close>

definition similarity_of :: "pr list \<Rightarrow> real" where
  "similarity_of prs_list =
     (let weighted_avg = weighted_avg_of prs_list;
          tech_depth = tech_depth_score_of (tech_frequency prs_list);
          volume_boost = min (real (length prs_list) / 10) 1;
          substantial_count =
            length (filter (\<lambda>p. get_lines_changed p \<ge> MIN_SUBSTANTIAL_PR_LINES) prs_list);
          substantial_boost = min (real substantial_count / 5) 0.2;
          tech_specialization_boost = tech_depth * 0.15
      in weighted_avg * (0.7 + 0.3 * volume_boost)
           * (1 + substantial_boost + tech_specialization_boost))"

text \<open>
  The body of the loop over \<^verbatim>\<open>author_prs.items()\<close>. The best PR is
  \<^verbatim>\<open>prs_list[0]\<close>, which raises \<^verbatim>\<open>IndexError\<close> on an empty group. The sub-dictionaries
  \<^verbatim>\<open>best_pr\<close> and \<^verbatim>\<open>top_prs\<close> of the source copy display fields of these PRs; the
  model keeps the PRs themselves.
\<close>

definition score_author ::
  "(string \<Rightarrow> int option) \<Rightarrow> real \<Rightarrow> string \<Rightarrow> pr list \<Rightarrow> py_error + expert" where
  "score_author age_days_of recency_weight a grp =
     (let prs_list = sort_desc combined_score grp in
      case prs_list of
        [] \<Rightarrow> Inl IndexError
      | best # _ \<Rightarrow>
          (let freq = tech_frequency prs_list;
               sim = similarity_of prs_list;
               recency = calculate_recency_score age_days_of (get_merged_date best);
               final_score = sim * (1 - recency_weight) + recency * recency_weight
           in Inr \<lparr> expert_author = a,
                    github_url = ''https://github.com/'' @ a,
                    score = final_score,
                    expert_similarity_score = sim,
                    recency_score = recency,
                    tech_depth_score = tech_depth_score_of freq,
                    best_pr = best,
                    top_prs = take 3 prs_list,
                    tech_expertise = sort (remdups (concat (map get_tech_keywords prs_list))),
                    tech_specialization = take 5 (sort_desc snd freq),
                    total_relevant_prs = length prs_list,
                    total_lines_changed = sum_list (map get_lines_changed prs_list),
                    substantial_prs_count =
                      length (filter (\<lambda>p. get_lines_changed p \<ge> MIN_SUBSTANTIAL_PR_LINES)
                                prs_list) \<rparr>))"

subsection \<open>Ranking (\<^verbatim>\<open>_rank_experts\<close>, query.py 99-273)\<close>

fun score_all ::
  "(string \<Rightarrow> int option) \<Rightarrow> real \<Rightarrow> (string \<times> pr list) list \<Rightarrow> py_error + expert list" where
  "score_all age_days_of w [] = Inr []"
| "score_all age_days_of w ((a, g) # rest) =
     (case score_author age_days_of w a g of
        Inl e \<Rightarrow> Inl e
      | Inr x \<Rightarrow>
          (case score_all age_days_of w rest of
             Inl e \<Rightarrow> Inl e
           | Inr xs \<Rightarrow> Inr (x # xs)))"

text \<open>The condition of query.py 264.\<close>

definition meets_criteria :: "expert \<Rightarrow> bool" where
  "meets_criteria e =
     (total_relevant_prs e \<ge> MIN_EXPERT_PRS \<or> total_lines_changed e \<ge> MIN_EXPERT_TOTAL_LINES)"

text \<open>query.py 256-273.\<close>

definition filter_experts :: "expert list \<Rightarrow> expert list" where
  "filter_experts experts =
     (let filtered_experts = filter meets_criteria experts
      in if filtered_experts \<noteq> [] then filtered_experts else experts)"

text \<open>The experts sorted by final score, before the minimum-expertise filter (query.py 110-254).\<close>

definition ranked_experts ::
  "(string \<Rightarrow> int option) \<Rightarrow> real \<Rightarrow> pr list \<Rightarrow> py_error + expert list" where
  "ranked_experts age_days_of w prs =
     (case score_all age_days_of w (group_by_author prs) of
        Inl e \<Rightarrow> Inl e
      | Inr experts \<Rightarrow> Inr (sort_desc score experts))"

definition rank_experts ::
  "(string \<Rightarrow> int option) \<Rightarrow> real \<Rightarrow> pr list \<Rightarrow> py_error + expert list" where
  "rank_experts age_days_of w prs =
     (case ranked_experts age_days_of w prs of
        Inl e \<Rightarrow> Inl e
      | Inr experts \<Rightarrow> Inr (filter_experts experts))"

subsection \<open>The aggregate similarity score as the specification words it\<close>

text \<open>
  The definitions of this subsection follow the specification, on the candidates of one
  author in retrieval order: the technology tokens of the group and their frequencies, the
  (at most five) largest combined scores, their weighted average, the technology depth, and
  the aggregate score.
\<close>

definition tokens :: "pr list \<Rightarrow> string list" where
  "tokens g = remdups (concat (map get_tech_keywords g))"

definition token_frequency :: "pr list \<Rightarrow> string \<Rightarrow> int" where
  "token_frequency g t = int (count_list (concat (map get_tech_keywords g)) t)"

definition top_scores :: "pr list \<Rightarrow> real list" where
  "top_scores g = take 5 (rev (sort (map combined_score g)))"

definition weightedAvg :: "pr list \<Rightarrow> real" where
  "weightedAvg g =
     (let n = min 5 (length g)
      in (\<Sum>i<n. top_scores g ! i * position_weights ! i) / (\<Sum>i<n. position_weights ! i))"

definition techDepth :: "pr list \<Rightarrow> real" where
  "techDepth g =
     (let top = take 3 (rev (sort (map (token_frequency g) (tokens g))))
      in if top = [] then 0
         else min ((real_of_int (sum_list top) / real (length top)) / 5) 1)"

definition substantialCount :: "pr list \<Rightarrow> nat" where
  "substantialCount g = length (filter (\<lambda>p. get_lines_changed p \<ge> MIN_SUBSTANTIAL_PR_LINES) g)"

definition similarityScore :: "pr list \<Rightarrow> real" where
  "similarityScore g =
     weightedAvg g * (0.7 + 0.3 * min (real (length g) / 10) 1)
       * (1 + min (real (substantialCount g) / 5) 0.2 + techDepth g * 0.15)"

subsection \<open>Embedding (\<^verbatim>\<open>PREmbedder.generate_embedding\<close>, embedder.py 65-93)\<close>

text \<open>
  \<open>encode\<close> stands for the provider call (\<^verbatim>\<open>_generate_openai_embedding\<close> or
  \<^verbatim>\<open>_generate_local_embedding\<close>), which may raise; \<open>embedding_cache\<close> is
  \<^verbatim>\<open>self.cache\<close>. The function returns the vector and the embedder with its cache
  updated.
\<close>

record embedder =
  encode :: "string \<Rightarrow> py_error + real list"
  dimension :: nat
  embedding_cache :: "string \<rightharpoonup> real list"

definition generate_embedding :: "embedder \<Rightarrow> string \<Rightarrow> real list \<times> embedder" where
  "generate_embedding em txt =
     (case embedding_cache em txt of
        Some v \<Rightarrow> (v, em)
      | None \<Rightarrow>
          (case encode em txt of
             Inr embedding \<Rightarrow>
               (embedding, em\<lparr>embedding_cache := (embedding_cache em)(txt \<mapsto> embedding)\<rparr>)
           | Inl e \<Rightarrow> (replicate (dimension em) 0, em)))"

subsection \<open>The query pipeline (\<^verbatim>\<open>find_experts\<close>, query.py 24-97)\<close>

definition TOP_K_RESULTS :: nat where
  "TOP_K_RESULTS = 100"

definition TOP_N_EXPERTS :: int where
  "TOP_N_EXPERTS = 10"

text \<open>query.py 70-87, on the results sorted by similarity.\<close>

definition substantiality_filter :: "pr list \<Rightarrow> pr list" where
  "substantiality_filter results =
     (let substantial_prs =
            filter (\<lambda>p. get_lines_changed p \<ge> MIN_SUBSTANTIAL_PR_LINES) results
      in if substantial_prs \<noteq> [] then
           (if length substantial_prs \<ge> 20 then substantial_prs
            else
              (let smaller_prs =
                     sort_desc get_lines_changed
                       (filter (\<lambda>p. get_lines_changed p < MIN_SUBSTANTIAL_PR_LINES) results)
               in substantial_prs
                    @ slice_to smaller_prs (max 10 (20 - int (length substantial_prs)))))
         else results)"

text \<open>
  \<open>search\<close> stands for \<^verbatim>\<open>self.db.search\<close> (the vector index, an external service): it
  takes the query vector, the limit and the two filters, and may raise, which
  \<^verbatim>\<open>find_experts\<close> does not catch. The size statistics of query.py 62-66 are only
  printed. The function returns what \<^verbatim>\<open>find_experts\<close> returns, and the embedder.
\<close>

type_synonym vector_search =
  "real list \<Rightarrow> nat \<Rightarrow> string list option \<Rightarrow> string option \<Rightarrow> py_error + pr list"

definition find_experts ::
  "embedder \<Rightarrow> vector_search \<Rightarrow> (string \<Rightarrow> int option) \<Rightarrow> string \<Rightarrow> int \<Rightarrow>
     string list option \<Rightarrow> string option \<Rightarrow> real \<Rightarrow> (py_error + expert list) \<times> embedder" where
  "find_experts em search age_days_of query top_n tech_filter repo_filter recency_weight =
     (let (query_embedding, em') = generate_embedding em query
      in case search query_embedding TOP_K_RESULTS tech_filter repo_filter of
           Inl e \<Rightarrow> (Inl e, em')
         | Inr found \<Rightarrow>
             (let results = substantiality_filter (sort_desc get_similarity_score found)
              in case rank_experts age_days_of recency_weight results of
                   Inl e \<Rightarrow> (Inl e, em')
                 | Inr experts \<Rightarrow> (Inr (slice_to experts top_n), em')))"

text \<open>The substantiality filter as the specification words it.\<close>

definition substantial :: "pr \<Rightarrow> bool" where
  "substantial p = (get_lines_changed p \<ge> MIN_SUBSTANTIAL_PR_LINES)"

definition claimed_substantiality_filter :: "pr list \<Rightarrow> pr list" where
  "claimed_substantiality_filter candidates =
     (let subst = filter substantial candidates;
          other = filter (\<lambda>p. \<not> substantial p) candidates
      in if length subst \<ge> 20 then subst
         else subst @ take (max 10 (20 - length subst)) (sort_desc get_lines_changed other))"

subsection \<open>The record cache (\<^verbatim>\<open>PRCacheManager\<close>, cache_manager.py)\<close>

text \<open>
  A payload file holds either a JSON object with the key \<^verbatim>\<open>prs\<close> or anything else;
  \<open>load_payload\<close> is \<^verbatim>\<open>json.load(f)['prs']\<close>, which raises on the latter. Time stamps
  are microseconds since the epoch, and \<open>days\<close> is \<^verbatim>\<open>timedelta.days\<close>, the floor of
  the difference in days. The index in memory and the index file agree, since every
  change of the index is followed by \<^verbatim>\<open>_save_index\<close>; the entries of the index are
  well formed, as \<^verbatim>\<open>cache_prs\<close> writes them, and failures of the file system on
  writing are not modelled.
\<close>

datatype payload = Payload "pr list" | Corrupt

record index_entry =
  cached_at :: int
  pr_count :: nat
  cache_file :: string

record cache_manager =
  index :: "string \<rightharpoonup> index_entry"
  files :: "string \<rightharpoonup> payload"

definition get_repo_cache_path :: "string \<Rightarrow> string" where
  "get_repo_cache_path r = map (\<lambda>c. if c = CHR ''/'' then CHR ''_'' else c) r @ ''.json''"

definition days :: "int \<Rightarrow> int" where
  "days delta = delta div 86400000000"

definition is_cached :: "cache_manager \<Rightarrow> int \<Rightarrow> string \<Rightarrow> int \<Rightarrow> bool" where
  "is_cached cm now r max_age_days =
     (case index cm r of
        None \<Rightarrow> False
      | Some cache_info \<Rightarrow> days (now - cached_at cache_info) < max_age_days)"

definition load_payload :: "payload \<Rightarrow> py_error + pr list" where
  "load_payload f = (case f of Payload prs \<Rightarrow> Inr prs | Corrupt \<Rightarrow> Inl (LoadError ''corrupt''))"

definition get_cached_prs :: "cache_manager \<Rightarrow> string \<Rightarrow> pr list option \<times> cache_manager" where
  "get_cached_prs cm r =
     (case index cm r of
        None \<Rightarrow> (None, cm)
      | Some _ \<Rightarrow>
          (case files cm (get_repo_cache_path r) of
             None \<Rightarrow> (None, cm\<lparr>index := (index cm)(r := None)\<rparr>)
           | Some f \<Rightarrow>
               (case load_payload f of
                  Inr prs \<Rightarrow> (Some prs, cm)
                | Inl e \<Rightarrow> (None, cm))))"

definition cache_prs :: "cache_manager \<Rightarrow> int \<Rightarrow> string \<Rightarrow> pr list \<Rightarrow> cache_manager" where
  "cache_prs cm now r prs =
     (let cache_path = get_repo_cache_path r
      in cm\<lparr>files := (files cm)(cache_path \<mapsto> Payload prs),
            index := (index cm)(r \<mapsto>
              \<lparr>cached_at = now, pr_count = length prs, cache_file = cache_path\<rparr>)\<rparr>)"

subsection \<open>\<^verbatim>\<open>get_or_scrape_repos\<close> (cache_manager.py 173-224)\<close>

text \<open>
  Lines 203-222 of one iteration: the scrape, and on an exception of \<open>scraper_func\<close> the
  fallback to the cache. \<^verbatim>\<open>if cached_prs:\<close> is false for \<^verbatim>\<open>None\<close> and for the empty
  list. The clock \<open>now\<close> is the same for the whole batch.
\<close>

definition scrape_fresh ::
  "(string \<Rightarrow> py_error + pr list) \<Rightarrow> int \<Rightarrow> pr list \<times> cache_manager \<Rightarrow> string \<Rightarrow>
     pr list \<times> cache_manager" where
  "scrape_fresh scraper_func now st r =
     (let (all_prs, cm) = st
      in case scraper_func r of
           Inr prs \<Rightarrow> (all_prs @ prs, cache_prs cm now r prs)
         | Inl e \<Rightarrow>
             (let (cached_prs, cm') = get_cached_prs cm r
              in case cached_prs of
                   None \<Rightarrow> (all_prs, cm')
                 | Some prs \<Rightarrow> if prs \<noteq> [] then (all_prs @ prs, cm') else (all_prs, cm')))"

text \<open>One iteration of the loop over \<^verbatim>\<open>repos\<close> (lines 195-222).\<close>

definition scrape_step ::
  "(string \<Rightarrow> py_error + pr list) \<Rightarrow> int \<Rightarrow> bool \<Rightarrow> int \<Rightarrow>
     pr list \<times> cache_manager \<Rightarrow> string \<Rightarrow> pr list \<times> cache_manager" where
  "scrape_step scraper_func now force_refresh max_cache_age_days st r =
     (let (all_prs, cm) = st
      in if \<not> force_refresh \<and> is_cached cm now r max_cache_age_days then
           (let (cached_prs, cm') = get_cached_prs cm r
            in case cached_prs of
                 None \<Rightarrow> scrape_fresh scraper_func now (all_prs, cm') r
               | Some prs \<Rightarrow>
                   if prs \<noteq> [] then (all_prs @ prs, cm')
                   else scrape_fresh scraper_func now (all_prs, cm') r)
         else scrape_fresh scraper_func now (all_prs, cm) r)"

definition get_or_scrape_repos ::
  "string list \<Rightarrow> (string \<Rightarrow> py_error + pr list) \<Rightarrow> cache_manager \<Rightarrow> int \<Rightarrow> bool \<Rightarrow> int \<Rightarrow>
     pr list \<times> cache_manager" where
  "get_or_scrape_repos repos scraper_func cm now force_refresh max_cache_age_days =
     foldl (scrape_step scraper_func now force_refresh max_cache_age_days) ([], cm) repos"

text \<open>
  What the cache can serve for a repository: the records \<^verbatim>\<open>get_cached_prs\<close> returns,
  and no records when it returns \<^verbatim>\<open>None\<close>.
\<close>

definition cached_records :: "cache_manager \<Rightarrow> string \<Rightarrow> pr list" where
  "cached_records cm r = (case fst (get_cached_prs cm r) of None \<Rightarrow> [] | Some prs \<Rightarrow> prs)"

subsection \<open>Example candidates\<close>

definition empty_pr :: pr where
  "empty_pr = \<lparr> title = None, pr_url = None, repo = None, author = None, tech_keywords = None,
     lines_changed = None, merged_date = None, similarity_score = None, complexity_score = None,
     impact_score = None, impact_category = None, has_tests = None, has_docs = None,
     review_comments_count = None, files_changed = None, commits_count = None \<rparr>"

definition alice_pr1 :: pr where
  "alice_pr1 = empty_pr \<lparr> author := Some ''alice'', tech_keywords := Some [''graphql''],
     lines_changed := Some 600, similarity_score := Some 0.9 \<rparr>"

definition alice_pr2 :: pr where
  "alice_pr2 = empty_pr \<lparr> author := Some ''alice'', tech_keywords := Some [''graphql'', ''node''],
     lines_changed := Some 5000, similarity_score := Some 0.4 \<rparr>"

definition bob_pr :: pr where
  "bob_pr = empty_pr \<lparr> author := Some ''bob'', tech_keywords := Some [''css'', ''graphql''],
     lines_changed := Some 50, similarity_score := Some 0.95 \<rparr>"

definition anon_pr :: pr where
  "anon_pr = empty_pr \<lparr> author := Some '''', tech_keywords := Some [''css''],
     lines_changed := Some 30, similarity_score := Some 0.99 \<rparr>"

definition example_prs :: "pr list" where
  "example_prs = [alice_pr1, anon_pr, bob_pr, alice_pr2]"

text \<open>Example caches, embedders and an empty vector index.\<close>

definition react :: string where
  "react = ''facebook/react''"

definition next_js :: string where
  "next_js = ''vercel/next.js''"

definition example_entry :: index_entry where
  "example_entry = \<lparr>cached_at = 0, pr_count = 1, cache_file = ''facebook_react.json''\<rparr>"

definition example_cache :: cache_manager where
  "example_cache = \<lparr>index = [react \<mapsto> example_entry],
                      files = [''facebook_react.json'' \<mapsto> Payload [alice_pr1]]\<rparr>"

definition corrupt_cache :: cache_manager where
  "corrupt_cache = \<lparr>index = [react \<mapsto> example_entry],
                      files = [''facebook_react.json'' \<mapsto> Corrupt]\<rparr>"

definition dangling_cache :: cache_manager where
  "dangling_cache = \<lparr>index = [react \<mapsto> example_entry], files = Map.empty\<rparr>"

definition failing_embedder :: embedder where
  "failing_embedder = \<lparr>encode = (\<lambda>_. Inl (EmbedError ''service down'')), dimension = 3,
                         embedding_cache = Map.empty\<rparr>"

definition working_embedder :: embedder where
  "working_embedder = \<lparr>encode = (\<lambda>_. Inr [1 / 2, 1 / 2, 0]), dimension = 3,
                         embedding_cache = Map.empty\<rparr>"

definition empty_collection :: vector_search where
  "empty_collection v limit tech_filter repo_filter = Inr []"

definition example_scraper :: "string \<Rightarrow> py_error + pr list" where
  "example_scraper r = (if r = next_js then Inr [bob_pr] else Inl (ScrapeError ''rate limit''))"

text \<open>Two caches with the same payload files and the same index entries except at one repository.\<close>

definition agree_except :: "string \<Rightarrow> cache_manager \<Rightarrow> cache_manager \<Rightarrow> bool" where
  "agree_except x cm cm' = (files cm = files cm' \<and> (\<forall>r. r \<noteq> x \<longrightarrow> index cm r = index cm' r))"

section \<open>Theorems\<close>

subsection \<open>Sorting\<close>

lemma mset_sort_desc: "mset (sort_desc k xs) = mset xs"
  by (simp add: sort_desc_def)

lemma set_sort_desc: "set (sort_desc k xs) = set xs"
  by (simp add: sort_desc_def)

lemma length_sort_desc: "length (sort_desc k xs) = length xs"
  by (simp add: sort_desc_def)

lemma sort_desc_Nil_iff: "sort_desc k xs = [] \<longleftrightarrow> xs = []"
  using length_sort_desc [of k xs] by (metis length_0_conv)

lemma map_sort_key: "map k (sort_key k xs) = sort (map k xs)"
  by (rule properties_for_sort [symmetric]) simp_all

lemma sort_cong_mset: "mset xs = mset ys \<Longrightarrow> sort xs = sort ys"
  by (metis properties_for_sort mset_sort sorted_sort)

lemma map_sort_desc: "map k (sort_desc k xs) = rev (sort (map k xs))"
proof -
  have "map k (sort_desc k xs) = rev (sort (map k (rev xs)))"
    unfolding sort_desc_def by (metis rev_map map_sort_key)
  moreover have "sort (map k (rev xs)) = sort (map k xs)"
    by (rule sort_cong_mset) simp
  ultimately show ?thesis by simp
qed

lemma length_filter_sort_desc: "length (filter P (sort_desc k xs)) = length (filter P xs)"
proof -
  have "mset (filter P (sort_desc k xs)) = mset (filter P xs)"
    by (simp add: mset_sort_desc)
  then show ?thesis by (metis size_mset)
qed

lemma sum_list_zip_nth:
  "sum_list (map (\<lambda>(s, w). s * w) (zip xs ws)) = (\<Sum>i<min (length xs) (length ws). xs ! i * ws ! i)"
proof -
  have "sum_list (map (\<lambda>(s, w). s * w) (zip xs ws)) = (\<Sum>i = 0..<length (zip xs ws). (map (\<lambda>(s, w). s * w) (zip xs ws)) ! i)"
    by (simp add: sum_list_sum_nth)
  also have "\<dots> = (\<Sum>i = 0..<min (length xs) (length ws). xs ! i * ws ! i)"
    by (rule sum.cong) auto
  finally show ?thesis by (simp add: lessThan_atLeast0)
qed

subsection \<open>Technology frequencies\<close>

lemma map_of_bump:
  "map_of (bump t f) k = (if k = t then Some (dict_get (map_of f t) 0 + 1) else map_of f k)"
  by (induction t f rule: bump.induct) (auto simp: dict_get_def)

lemma keys_bump: "fst ` set (bump t f) = insert t (fst ` set f)"
  by (induction t f rule: bump.induct) auto

lemma distinct_bump: "distinct (map fst f) \<Longrightarrow> distinct (map fst (bump t f))"
  by (induction t f rule: bump.induct) (auto simp: keys_bump)

lemma keys_bump_all:
  "fst ` set (foldl (\<lambda>f t. bump t f) acc ks) = fst ` set acc \<union> set ks"
  by (induction ks arbitrary: acc) (auto simp: keys_bump)

lemma distinct_bump_all:
  "distinct (map fst acc) \<Longrightarrow> distinct (map fst (foldl (\<lambda>f t. bump t f) acc ks))"
  by (induction ks arbitrary: acc) (auto simp: distinct_bump)

lemma map_of_bump_all:
  "map_of (foldl (\<lambda>f t. bump t f) acc ks) k =
     (if count_list ks k = 0 then map_of acc k
      else Some (dict_get (map_of acc k) 0 + int (count_list ks k)))"
  by (induction ks arbitrary: acc) (auto simp: map_of_bump dict_get_def)

lemma tech_frequency_concat:
  "foldl (\<lambda>freq p. foldl (\<lambda>f t. bump t f) freq (get_tech_keywords p)) acc xs =
     foldl (\<lambda>f t. bump t f) acc (concat (map get_tech_keywords xs))"
  by (induction xs arbitrary: acc) auto

lemma snd_tech_frequency:
  assumes "r = tech_frequency xs"
  shows "map snd r = map (token_frequency xs) (map fst r)"
proof -
  let ?ks = "concat (map get_tech_keywords xs)"
  have r: "r = foldl (\<lambda>f t. bump t f) [] ?ks"
    using assms by (simp add: tech_frequency_def tech_frequency_concat)
  have d: "distinct (map fst r)"
    unfolding r by (rule distinct_bump_all) simp
  have "snd kv = token_frequency xs (fst kv)" if "kv \<in> set r" for kv
  proof -
    obtain k v where kv: "kv = (k, v)" by (cases kv)
    have "map_of r k = Some v" using d that kv by simp
    then show ?thesis
      unfolding r kv by (simp add: map_of_bump_all token_frequency_def dict_get_def split: if_splits)
  qed
  then show ?thesis by simp
qed

lemma mset_keys_tech_frequency:
  "mset (map fst (tech_frequency xs)) = mset (tokens xs)"
proof -
  have "distinct (map fst (tech_frequency xs))"
    unfolding tech_frequency_def tech_frequency_concat by (rule distinct_bump_all) simp
  moreover have "set (map fst (tech_frequency xs)) = set (tokens xs)"
    unfolding tech_frequency_def tech_frequency_concat tokens_def
    by (simp add: keys_bump_all)
  ultimately show ?thesis
    by (metis set_eq_iff_mset_eq_distinct distinct_remdups tokens_def)
qed

lemma mset_counts_tech_frequency:
  "mset (map snd (tech_frequency xs)) = mset (map (token_frequency xs) (tokens xs))"
proof -
  have "mset (map snd (tech_frequency xs)) =
        image_mset (token_frequency xs) (mset (map fst (tech_frequency xs)))"
    using snd_tech_frequency [OF refl, of xs] by (metis mset_map)
  also have "\<dots> = image_mset (token_frequency xs) (mset (tokens xs))"
    by (simp only: mset_keys_tech_frequency)
  finally show ?thesis by simp
qed

lemma mset_concat_keywords:
  "mset (concat (map get_tech_keywords xs)) = sum_mset (image_mset (\<lambda>p. mset (get_tech_keywords p)) (mset xs))"
  by (induction xs) auto

lemma tokens_cong: "mset xs = mset ys \<Longrightarrow> mset (tokens xs) = mset (tokens ys)"
proof -
  assume "mset xs = mset ys"
  then have "mset (concat (map get_tech_keywords xs)) = mset (concat (map get_tech_keywords ys))"
    by (simp only: mset_concat_keywords)
  then have "set (concat (map get_tech_keywords xs)) = set (concat (map get_tech_keywords ys))"
    by (metis set_mset_mset)
  then show ?thesis unfolding tokens_def by (metis set_eq_iff_mset_remdups_eq)
qed

lemma token_frequency_cong: "mset xs = mset ys \<Longrightarrow> token_frequency xs = token_frequency ys"
proof
  fix t
  assume "mset xs = mset ys"
  then have "mset (concat (map get_tech_keywords xs)) = mset (concat (map get_tech_keywords ys))"
    by (simp only: mset_concat_keywords)
  then show "token_frequency xs t = token_frequency ys t"
    unfolding token_frequency_def by (metis count_mset)
qed

subsection \<open>The aggregate score on the sorted group\<close>

lemma sum_list_sum_lessThan: "sum_list (ws::real list) = (\<Sum>i<length ws. ws ! i)"
  by (simp add: sum_list_sum_nth lessThan_atLeast0)

lemma weighted_avg_sorted:
  "weighted_avg_of (sort_desc combined_score g) = weightedAvg g"
proof -
  let ?s = "sort_desc combined_score g"
  let ?n = "min 5 (length g)"
  have scores: "map combined_score (take 5 ?s) = top_scores g"
    by (simp add: top_scores_def take_map [symmetric] map_sort_desc)
  have len: "length (top_scores g) = ?n"
    by (simp add: top_scores_def min.commute)
  have lw: "length (take ?n position_weights) = ?n"
    by (simp add: position_weights_def)
  have num: "sum_list (map (\<lambda>(s, w). s * w) (zip (top_scores g) (take ?n position_weights)))
        = (\<Sum>i<?n. top_scores g ! i * position_weights ! i)"
    unfolding sum_list_zip_nth len lw by (rule sum.cong) auto
  have den: "sum_list (take ?n position_weights) = (\<Sum>i<?n. position_weights ! i)"
    unfolding sum_list_sum_lessThan lw by (rule sum.cong) auto
  show ?thesis
    unfolding weighted_avg_of_def weightedAvg_def Let_def scores len num den ..
qed

lemma tech_depth_sorted:
  assumes "mset s = mset g"
  shows "tech_depth_score_of (tech_frequency s) = techDepth g"
proof -
  let ?f = "tech_frequency s"
  have counts: "map snd (sort_desc snd ?f) = rev (sort (map (token_frequency g) (tokens g)))"
  proof -
    have "mset (map snd ?f) = mset (map (token_frequency g) (tokens g))"
      using mset_counts_tech_frequency [of s] tokens_cong [OF assms] token_frequency_cong [OF assms]
      by simp
    then have "sort (map snd ?f) = sort (map (token_frequency g) (tokens g))"
      by (rule sort_cong_mset)
    then show ?thesis by (simp add: map_sort_desc)
  qed
  let ?top = "take 3 (rev (sort (map (token_frequency g) (tokens g))))"
  have top: "map snd (take 3 (sort_desc snd ?f)) = ?top"
    unfolding take_map [symmetric] counts ..
  have ltop: "length (take 3 (sort_desc snd ?f)) = length ?top"
    using top by (metis length_map)
  have empty: "?f = [] \<longleftrightarrow> ?top = []"
  proof -
    have "length ?top = min 3 (length ?f)"
      unfolding ltop [symmetric] by (simp add: length_sort_desc min.commute)
    then have "length ?top = 0 \<longleftrightarrow> length ?f = 0"
      by linarith
    then show ?thesis
      by (simp only: length_0_conv)
  qed
  show ?thesis
    unfolding tech_depth_score_of_def techDepth_def Let_def top ltop
    using empty by simp
qed

lemma similarity_of_sorted:
  "similarity_of (sort_desc combined_score g) = similarityScore g"
  unfolding similarity_of_def similarityScore_def Let_def substantialCount_def
  by (simp only: weighted_avg_sorted tech_depth_sorted [OF mset_sort_desc]
        length_sort_desc length_filter_sort_desc)

subsection \<open>Grouping\<close>

lemma map_of_append_to:
  "map_of (append_to a p acc) b =
     (if b = a then Some (dict_get (map_of acc a) [] @ [p]) else map_of acc b)"
  by (induction a p acc rule: append_to.induct) (auto simp: dict_get_def)

lemma keys_append_to: "fst ` set (append_to a p acc) = insert a (fst ` set acc)"
  by (induction a p acc rule: append_to.induct) auto

lemma distinct_append_to:
  "distinct (map fst acc) \<Longrightarrow> distinct (map fst (append_to a p acc))"
  by (induction a p acc rule: append_to.induct) (auto simp: keys_append_to)

lemma distinct_group_step:
  "distinct (map fst acc) \<Longrightarrow> distinct (map fst (group_step acc p))"
  by (simp add: group_step_def Let_def distinct_append_to)

lemma distinct_groups:
  "distinct (map fst acc) \<Longrightarrow> distinct (map fst (foldl group_step acc prs))"
  by (induction prs arbitrary: acc) (simp_all add: distinct_group_step)

lemma map_of_group_step:
  "map_of (group_step acc p) a =
     (if a \<noteq> [] \<and> get_author p = a then Some (dict_get (map_of acc a) [] @ [p])
      else map_of acc a)"
  by (auto simp: group_step_def Let_def map_of_append_to)

lemma map_of_groups:
  "map_of (foldl group_step acc prs) a =
     (if a = [] \<or> filter (\<lambda>p. get_author p = a) prs = [] then map_of acc a
      else Some (dict_get (map_of acc a) [] @ filter (\<lambda>p. get_author p = a) prs))"
proof (induction prs arbitrary: acc)
  case Nil
  then show ?case by simp
next
  case (Cons p prs)
  show ?case
    by (simp add: Cons.IH map_of_group_step dict_get_def)
qed

lemma group_by_author_mem:
  assumes "(a, g) \<in> set (group_by_author prs)"
  shows "a \<noteq> [] \<and> g \<noteq> [] \<and> g = filter (\<lambda>p. get_author p = a) prs"
proof -
  have "distinct (map fst (group_by_author prs))"
    unfolding group_by_author_def by (rule distinct_groups) simp
  with assms have "map_of (group_by_author prs) a = Some g"
    by simp
  then show ?thesis
    unfolding group_by_author_def map_of_groups
    by (auto simp: dict_get_def split: if_splits)
qed

lemma group_by_author_complete:
  assumes "p \<in> set prs" and "get_author p \<noteq> []"
  shows "(get_author p, filter (\<lambda>q. get_author q = get_author p) prs) \<in> set (group_by_author prs)"
proof -
  have "filter (\<lambda>q. get_author q = get_author p) prs \<noteq> []"
    using assms(1) by (auto simp: filter_empty_conv)
  then have "map_of (group_by_author prs) (get_author p)
      = Some (filter (\<lambda>q. get_author q = get_author p) prs)"
    unfolding group_by_author_def map_of_groups using assms(2) by (simp add: dict_get_def)
  then show ?thesis by (rule map_of_SomeD)
qed

lemma group_by_author_filter:
  "foldl group_step acc (filter (\<lambda>p. get_author p \<noteq> []) prs) = foldl group_step acc prs"
  by (induction prs arbitrary: acc) (simp_all add: group_step_def)

subsection \<open>Scoring and ranking\<close>

lemma score_author_Inr:
  assumes "g \<noteq> []"
  shows "\<exists>e. score_author age w a g = Inr e"
proof -
  have "sort_desc combined_score g \<noteq> []"
    using assms by (simp add: sort_desc_Nil_iff)
  then obtain b bs where "sort_desc combined_score g = b # bs"
    by (cases "sort_desc combined_score g") auto
  then show ?thesis by (simp add: score_author_def Let_def)
qed

lemma score_author_fields:
  assumes "score_author age w a g = Inr e"
  shows "expert_author e = a"
    and "expert_similarity_score e = similarityScore g"
    and "score e = expert_similarity_score e * (1 - w) + recency_score e * w"
    and "total_relevant_prs e = length g"
    and "g \<noteq> []"
proof -
  let ?s = "sort_desc combined_score g"
  from assms have *: "expert_author e = a \<and> expert_similarity_score e = similarity_of ?s
      \<and> score e = expert_similarity_score e * (1 - w) + recency_score e * w
      \<and> total_relevant_prs e = length ?s \<and> ?s \<noteq> []"
    by (cases ?s) (auto simp: score_author_def Let_def)
  show "expert_author e = a" using * by simp
  show "expert_similarity_score e = similarityScore g"
    using * by (simp add: similarity_of_sorted)
  show "score e = expert_similarity_score e * (1 - w) + recency_score e * w"
    using * by simp
  show "total_relevant_prs e = length g" using * by (simp add: length_sort_desc)
  show "g \<noteq> []" using * by (simp add: sort_desc_Nil_iff)
qed

lemma score_all_total:
  "(\<And>a g. (a, g) \<in> set gs \<Longrightarrow> g \<noteq> []) \<Longrightarrow> \<exists>es. score_all age w gs = Inr es"
proof (induction gs)
  case Nil
  then show ?case by simp
next
  case (Cons x gs)
  obtain a g where x: "x = (a, g)" by (cases x)
  have "g \<noteq> []" using Cons.prems [of a g] x by simp
  then obtain e where e: "score_author age w a g = Inr e"
    using score_author_Inr by blast
  have "\<exists>es. score_all age w gs = Inr es"
    by (rule Cons.IH) (use Cons.prems in auto)
  then show ?case using e x by auto
qed

lemma score_all_mem:
  "score_all age w gs = Inr es \<Longrightarrow> e \<in> set es \<Longrightarrow>
     \<exists>a g. (a, g) \<in> set gs \<and> score_author age w a g = Inr e"
proof (induction gs arbitrary: es)
  case Nil
  then show ?case by simp
next
  case (Cons x gs)
  obtain a g where x: "x = (a, g)" by (cases x)
  from Cons.prems(1) x obtain y ys where
    y: "score_author age w a g = Inr y" and ys: "score_all age w gs = Inr ys" and es: "es = y # ys"
    by (auto split: sum.splits)
  show ?case
  proof (cases "e = y")
    case True
    then show ?thesis using y x by auto
  next
    case False
    then have "e \<in> set ys" using Cons.prems(2) es by simp
    then show ?thesis using Cons.IH [OF ys] by auto
  qed
qed

lemma score_all_complete:
  "score_all age w gs = Inr es \<Longrightarrow> (a, g) \<in> set gs \<Longrightarrow>
     \<exists>e \<in> set es. score_author age w a g = Inr e"
proof (induction gs arbitrary: es)
  case Nil
  then show ?case by simp
next
  case (Cons x gs)
  obtain b h where x: "x = (b, h)" by (cases x)
  from Cons.prems(1) x obtain y ys where
    y: "score_author age w b h = Inr y" and ys: "score_all age w gs = Inr ys" and es: "es = y # ys"
    by (auto split: sum.splits)
  show ?case
  proof (cases "(a, g) = (b, h)")
    case True
    then show ?thesis using y es by auto
  next
    case False
    then have "(a, g) \<in> set gs" using Cons.prems(2) x by auto
    then show ?thesis using Cons.IH [OF ys] es by auto
  qed
qed

lemma ranked_experts_total: "\<exists>es. ranked_experts age w prs = Inr es"
proof -
  have "\<exists>es. score_all age w (group_by_author prs) = Inr es"
    by (rule score_all_total) (use group_by_author_mem in blast)
  then show ?thesis by (auto simp: ranked_experts_def)
qed

lemma ranked_experts_mem:
  assumes "ranked_experts age w prs = Inr es" and "e \<in> set es"
  shows "\<exists>a g. (a, g) \<in> set (group_by_author prs) \<and> score_author age w a g = Inr e"
proof -
  from assms(1) obtain xs where xs: "score_all age w (group_by_author prs) = Inr xs"
    and es: "es = sort_desc score xs"
    by (auto simp: ranked_experts_def split: sum.splits)
  from assms(2) es have "e \<in> set xs" by (simp add: set_sort_desc)
  then show ?thesis using score_all_mem [OF xs] by blast
qed

subsection \<open>The combined score\<close>

text \<open>
  Claim C1. For every candidate match, the combined score computed by the ranking engine is
  the similarity multiplied by one plus the four boosts: the size boost
  \<open>min (lines / 5000) 1\<close> times 0.15 for a substantial candidate and times 0.05 otherwise,
  the complexity score times 0.10, the impact score times 0.08, and the quality boost
  0.03 for tests plus 0.02 for documentation plus 0.03 for more than five review comments.
  Each field is read as the source reads it, with the default of its \<^verbatim>\<open>get\<close> when the
  key is missing.
\<close>

theorem combined_score_formula:
  "combined_score c =
     get_similarity_score c *
       (1 + sizeBoost (get_lines_changed c) + complexityBoost c + impactBoost c + qualityBoost c)"
  by (simp add: combined_score_def sizeBoost_def complexityBoost_def impactBoost_def
      qualityBoost_def indicator_def Let_def)

subsection \<open>The example candidates, evaluated\<close>

lemmas get_defs = get_author_def get_similarity_score_def get_lines_changed_def get_complexity_score_def
  get_impact_score_def get_has_tests_def get_has_docs_def get_review_comments_count_def get_tech_keywords_def
  get_merged_date_def dict_get_def

lemmas example_defs = empty_pr_def alice_pr1_def alice_pr2_def bob_pr_def anon_pr_def

lemma example_authors:
  "get_author alice_pr1 = ''alice''" "get_author alice_pr2 = ''alice''"
  "get_author bob_pr = ''bob''" "get_author anon_pr = []"
  by (simp_all add: example_defs get_defs)

lemma alice_group: "filter (\<lambda>p. get_author p = ''alice'') example_prs = [alice_pr1, alice_pr2]"
  by (simp add: example_prs_def example_authors)

lemma bob_group: "filter (\<lambda>p. get_author p = ''bob'') example_prs = [bob_pr]"
  by (simp add: example_prs_def example_authors)

lemma example_scores:
  "combined_score alice_pr1 = 2493 / 2500" "combined_score alice_pr2 = 62 / 125"
  by (simp_all add: combined_score_def example_defs get_defs MIN_SUBSTANTIAL_PR_LINES_def)

lemma example_weightedAvg: "weightedAvg [alice_pr1, alice_pr2] = 3485 / 4500"
  by (simp add: weightedAvg_def top_scores_def example_scores position_weights_def lessThan_Suc numeral_2_eq_2)

lemma example_techDepth: "techDepth [alice_pr1, alice_pr2] = 3 / 10"
  by (simp add: techDepth_def tokens_def token_frequency_def example_defs get_defs)

lemma example_lines:
  "get_lines_changed alice_pr1 = 600" "get_lines_changed alice_pr2 = 5000"
  "get_lines_changed bob_pr = 50" "get_lines_changed anon_pr = 30"
  by (simp_all add: example_defs get_defs)

lemma example_similarityScore: "similarityScore [alice_pr1, alice_pr2] = 1099169 / 1500000"
  by (simp add: similarityScore_def example_weightedAvg example_techDepth substantialCount_def
      example_lines MIN_SUBSTANTIAL_PR_LINES_def)

subsection \<open>The profiles of a ranking\<close>

lemma sum_list_sort_desc: "sum_list (map f (sort_desc k xs)) = sum_list (map (f::'a \<Rightarrow> int) xs)"
proof -
  have "mset (map f (sort_desc k xs)) = mset (map f xs)"
    by (simp add: mset_sort_desc)
  then show ?thesis by (metis sum_mset_sum_list)
qed

lemma score_author_totals:
  assumes "score_author age w a g = Inr e"
  shows "total_lines_changed e = sum_list (map get_lines_changed g)"
    and "tech_depth_score e = techDepth g"
    and "substantial_prs_count e = substantialCount g"
proof -
  let ?s = "sort_desc combined_score g"
  from assms have *: "total_lines_changed e = sum_list (map get_lines_changed ?s)
      \<and> tech_depth_score e = tech_depth_score_of (tech_frequency ?s)
      \<and> substantial_prs_count e =
          length (filter (\<lambda>p. get_lines_changed p \<ge> MIN_SUBSTANTIAL_PR_LINES) ?s)"
    by (cases ?s) (auto simp: score_author_def Let_def)
  show "total_lines_changed e = sum_list (map get_lines_changed g)"
    using * by (simp add: sum_list_sort_desc)
  show "tech_depth_score e = techDepth g"
    using * by (simp add: tech_depth_sorted [OF mset_sort_desc])
  show "substantial_prs_count e = substantialCount g"
    using * by (simp add: length_filter_sort_desc substantialCount_def)
qed

text \<open>Every ranked profile is the score of the group of all candidates of its author.\<close>

lemma ranked_expert_group:
  assumes "ranked_experts age w prs = Inr es" and "e \<in> set es"
  shows "expert_author e \<noteq> [] \<and>
         score_author age w (expert_author e)
           (filter (\<lambda>p. get_author p = expert_author e) prs) = Inr e"
proof -
  from ranked_experts_mem [OF assms] obtain a g where
    ag: "(a, g) \<in> set (group_by_author prs)" and e: "score_author age w a g = Inr e"
    by blast
  have a: "expert_author e = a" using score_author_fields(1) [OF e] .
  from group_by_author_mem [OF ag] have "a \<noteq> []" and "g = filter (\<lambda>p. get_author p = a) prs"
    by simp_all
  then show ?thesis using e a by simp
qed

lemma ranked_experts_complete:
  assumes "ranked_experts age w prs = Inr es" and "p \<in> set prs" and "get_author p \<noteq> []"
  shows "\<exists>e\<in>set es. expert_author e = get_author p"
proof -
  from assms(1) obtain xs where xs: "score_all age w (group_by_author prs) = Inr xs"
    and es: "es = sort_desc score xs"
    by (auto simp: ranked_experts_def split: sum.splits)
  from score_all_complete [OF xs group_by_author_complete [OF assms(2,3)]]
  obtain e where mem: "e \<in> set xs"
    and sc: "score_author age w (get_author p) (filter (\<lambda>q. get_author q = get_author p) prs) = Inr e"
    by blast
  have "expert_author e = get_author p"
    using score_author_fields(1) [OF sc] .
  then show ?thesis using es mem by (auto simp: set_sort_desc)
qed

lemma rank_experts_eq:
  "ranked_experts age w prs = Inr es \<Longrightarrow> rank_experts age w prs = Inr (filter_experts es)"
  by (simp add: rank_experts_def)

lemma set_filter_experts: "set (filter_experts es) \<subseteq> set es"
  by (auto simp: filter_experts_def Let_def)

lemma ranked_expert_scores:
  assumes "ranked_experts age w prs = Inr es" and "e \<in> set es"
  shows "expert_similarity_score e =
           similarityScore (filter (\<lambda>p. get_author p = expert_author e) prs)"
    and "tech_depth_score e = techDepth (filter (\<lambda>p. get_author p = expert_author e) prs)"
    and "score e = expert_similarity_score e * (1 - w) + recency_score e * w"
  using ranked_expert_group [OF assms] score_author_fields(2,3) score_author_totals(2)
  by blast+

lemma ranked_expert_counts:
  assumes "ranked_experts age w prs = Inr es" and "e \<in> set es"
  shows "total_relevant_prs e = length (filter (\<lambda>p. get_author p = expert_author e) prs)"
    and "total_lines_changed e =
           sum_list (map get_lines_changed (filter (\<lambda>p. get_author p = expert_author e) prs))"
    and "filter (\<lambda>p. get_author p = expert_author e) prs \<noteq> []"
  using ranked_expert_group [OF assms] score_author_fields(4,5) score_author_totals(1)
  by blast+

lemma example_expert_authors:
  assumes "ranked_experts age w example_prs = Inr es" and "e \<in> set es"
  shows "expert_author e = ''alice'' \<or> expert_author e = ''bob''"
proof -
  have "expert_author e \<noteq> []"
    using ranked_expert_group [OF assms] by simp
  moreover have "filter (\<lambda>p. get_author p = expert_author e) example_prs \<noteq> []"
    using ranked_expert_counts(3) [OF assms] .
  then obtain p where "p \<in> set example_prs" and "get_author p = expert_author e"
    unfolding filter_empty_conv by blast
  ultimately show ?thesis
    by (auto simp: example_prs_def example_authors)
qed

subsection \<open>The aggregate similarity score, the final score, the filters of the ranking\<close>

text \<open>
  A profile returned by \<^const>\<open>rank_experts\<close> is a profile of the full ranking
  \<^const>\<open>ranked_experts\<close>.
\<close>

lemma profile_in_ranking:
  assumes "ranked_experts age w prs = Inr experts \<or> rank_experts age w prs = Inr experts"
    and "e \<in> set experts"
  shows "\<exists>rs. ranked_experts age w prs = Inr rs \<and> e \<in> set rs"
proof -
  obtain rs where rs: "ranked_experts age w prs = Inr rs"
    using ranked_experts_total by blast
  show ?thesis
  proof (cases "ranked_experts age w prs = Inr experts")
    case True
    then show ?thesis using assms(2) by blast
  next
    case False
    with assms(1) have "rank_experts age w prs = Inr experts" by simp
    then have "experts = filter_experts rs"
      using rs by (simp add: rank_experts_def)
    then have "e \<in> set rs"
      using assms(2) set_filter_experts by blast
    then show ?thesis using rs by blast
  qed
qed

text \<open>
  Claim C2. For every author group of the ranking engine, that is for every profile \<open>e\<close>
  of the ranking (before or after the minimum-expertise filter) and the candidates of its
  author, the aggregate similarity score is
  the weighted average of the (at most five) largest combined scores with the weights
  1.0, 0.8, 0.6, 0.4, 0.2 truncated to the group size, the weighted sum divided by the sum
  of the weights used, multiplied by \<open>0.7 + 0.3 * min (size / 10) 1\<close> and by
  \<open>1 + min (substantial / 5) 0.2 + techDepth * 0.15\<close>; the technology depth is the average
  frequency of the three most frequent technology tokens of the group, divided by 5 and
  capped at 1 (and 0 for a group without tokens, where there is nothing to average).
  The right-hand sides are \<^const>\<open>similarityScore\<close> and \<^const>\<open>techDepth\<close>, written from the
  specification on the unsorted group; the ranking computes them on the sorted group with
  a dictionary of counters.
\<close>

theorem aggregate_similarity_score:
  assumes "ranked_experts age w prs = Inr experts \<or> rank_experts age w prs = Inr experts"
    and "e \<in> set experts"
  shows "expert_similarity_score e =
           similarityScore (filter (\<lambda>p. get_author p = expert_author e) prs)
         \<and> tech_depth_score e = techDepth (filter (\<lambda>p. get_author p = expert_author e) prs)"
proof -
  from profile_in_ranking [OF assms] obtain rs where
    "ranked_experts age w prs = Inr rs" and "e \<in> set rs"
    by blast
  then show ?thesis using ranked_expert_scores by simp
qed

theorem aggregate_similarity_score_witness:
  "\<exists>experts e. ranked_experts (\<lambda>_. None) (1 / 10) example_prs = Inr experts \<and> e \<in> set experts
     \<and> expert_author e = ''alice'' \<and> expert_similarity_score e = 1099169 / 1500000
     \<and> tech_depth_score e = 3 / 10"
proof -
  obtain es where es: "ranked_experts (\<lambda>_. None) (1 / 10) example_prs = Inr es"
    using ranked_experts_total by blast
  have "alice_pr1 \<in> set example_prs" "get_author alice_pr1 \<noteq> []"
    by (simp_all add: example_prs_def example_authors)
  from ranked_experts_complete [OF es this] obtain e where
    e: "e \<in> set es" and a: "expert_author e = ''alice''"
    by (auto simp: example_authors)
  from aggregate_similarity_score [OF disjI1 [OF es] e]
  have "expert_similarity_score e = 1099169 / 1500000 \<and> tech_depth_score e = 3 / 10"
    by (simp add: a alice_group example_similarityScore example_techDepth)
  then show ?thesis using es e a by blast
qed

text \<open>
  Claim C7. For every author group, that is for every profile of the ranking (before or
  after the minimum-expertise filter), the final score is
  \<open>similarity * (1 - recencyWeight) + recency * recencyWeight\<close>; with a recency weight of 0
  it is exactly the aggregate similarity score, with a recency weight of 1 exactly the
  recency score.
\<close>

theorem recency_weight_extremes:
  assumes "ranked_experts age w prs = Inr experts \<or> rank_experts age w prs = Inr experts"
    and "e \<in> set experts"
  shows "score e = expert_similarity_score e * (1 - w) + recency_score e * w
         \<and> (w = 0 \<longrightarrow> score e = expert_similarity_score e)
         \<and> (w = 1 \<longrightarrow> score e = recency_score e)"
proof -
  from profile_in_ranking [OF assms] obtain rs where
    "ranked_experts age w prs = Inr rs" and "e \<in> set rs"
    by blast
  then have "score e = expert_similarity_score e * (1 - w) + recency_score e * w"
    by (rule ranked_expert_scores(3))
  then show ?thesis by simp
qed

text \<open>
  Claim C10. Candidates whose author is missing or empty are discarded before grouping:
  the ranking of a candidate list is the ranking of the list without them, so they
  contribute to no score or count, and no returned profile has the empty author.
\<close>

theorem empty_author_discarded:
  "rank_experts age w prs = rank_experts age w (filter (\<lambda>p. get_author p \<noteq> []) prs)
   \<and> (\<forall>es. rank_experts age w prs = Inr es \<longrightarrow> (\<forall>e\<in>set es. expert_author e \<noteq> []))"
proof
  show "rank_experts age w prs = rank_experts age w (filter (\<lambda>p. get_author p \<noteq> []) prs)"
    by (simp add: rank_experts_def ranked_experts_def group_by_author_def group_by_author_filter)
  show "\<forall>es. rank_experts age w prs = Inr es \<longrightarrow> (\<forall>e\<in>set es. expert_author e \<noteq> [])"
  proof (intro allI impI ballI)
    fix es e
    assume r: "rank_experts age w prs = Inr es" and e: "e \<in> set es"
    obtain rs where rs: "ranked_experts age w prs = Inr rs"
      using ranked_experts_total by blast
    with r have "es = filter_experts rs" by (simp add: rank_experts_def)
    with e have "e \<in> set rs" using set_filter_experts by blast
    then show "expert_author e \<noteq> []" using ranked_expert_group [OF rs] by blast
  qed
qed

text \<open>
  Claim C4. On the ranked profiles, the minimum-expertise filter keeps exactly the profiles
  with at least \<^const>\<open>MIN_EXPERT_PRS\<close> relevant PRs or at least
  \<^const>\<open>MIN_EXPERT_TOTAL_LINES\<close> lines changed, in ranking order; when no profile
  satisfies either condition the unfiltered ranking is returned, so a non-empty ranking
  never becomes an empty result.
\<close>

theorem minimum_expertise_filter:
  assumes "ranked_experts age w prs = Inr experts"
  shows "\<exists>es. rank_experts age w prs = Inr es
     \<and> (if \<exists>e\<in>set experts. total_relevant_prs e \<ge> MIN_EXPERT_PRS
                              \<or> total_lines_changed e \<ge> MIN_EXPERT_TOTAL_LINES
         then es = filter (\<lambda>e. total_relevant_prs e \<ge> MIN_EXPERT_PRS
                               \<or> total_lines_changed e \<ge> MIN_EXPERT_TOTAL_LINES) experts
         else es = experts)
     \<and> (experts \<noteq> [] \<longrightarrow> es \<noteq> [])"
proof -
  have crit: "meets_criteria = (\<lambda>e. total_relevant_prs e \<ge> MIN_EXPERT_PRS
                               \<or> total_lines_changed e \<ge> MIN_EXPERT_TOTAL_LINES)"
    by (simp add: meets_criteria_def fun_eq_iff)
  have "rank_experts age w prs = Inr (filter_experts experts)"
    using assms by (rule rank_experts_eq)
  moreover have "filter_experts experts =
      (if \<exists>e\<in>set experts. meets_criteria e then filter meets_criteria experts else experts)"
    by (simp add: filter_experts_def Let_def filter_empty_conv)
  moreover have "experts \<noteq> [] \<longrightarrow> filter_experts experts \<noteq> []"
    by (simp add: filter_experts_def Let_def)
  ultimately show ?thesis unfolding crit by auto
qed

theorem recency_weight_extremes_witness:
  "(\<exists>experts e. ranked_experts (\<lambda>_. None) 0 example_prs = Inr experts \<and> e \<in> set experts
       \<and> expert_author e = ''alice'' \<and> score e = 1099169 / 1500000)
   \<and> (\<exists>experts e. ranked_experts (\<lambda>_. None) 1 example_prs = Inr experts \<and> e \<in> set experts
       \<and> expert_author e = ''alice'' \<and> score e = recency_score e)"
proof -
  have mem: "alice_pr1 \<in> set example_prs" "get_author alice_pr1 \<noteq> []"
    by (simp_all add: example_prs_def example_authors)
  obtain es0 where es0: "ranked_experts (\<lambda>_. None) 0 example_prs = Inr es0"
    using ranked_experts_total by blast
  from ranked_experts_complete [OF es0 mem] obtain e0 where
    e0: "e0 \<in> set es0" and a0: "expert_author e0 = ''alice''"
    by (auto simp: example_authors)
  have "score e0 = expert_similarity_score e0"
    using recency_weight_extremes [OF disjI1 [OF es0] e0] by simp
  then have s0: "score e0 = 1099169 / 1500000"
    using ranked_expert_scores(1) [OF es0 e0]
    by (simp add: a0 alice_group example_similarityScore)
  obtain es1 where es1: "ranked_experts (\<lambda>_. None) 1 example_prs = Inr es1"
    using ranked_experts_total by blast
  from ranked_experts_complete [OF es1 mem] obtain e1 where
    e1: "e1 \<in> set es1" and a1: "expert_author e1 = ''alice''"
    by (auto simp: example_authors)
  have s1: "score e1 = recency_score e1"
    using recency_weight_extremes [OF disjI1 [OF es1] e1] by simp
  show ?thesis using es0 e0 a0 s0 es1 e1 a1 s1 by blast
qed

theorem empty_author_discarded_witness:
  "rank_experts (\<lambda>_. None) (1 / 10) example_prs
     = rank_experts (\<lambda>_. None) (1 / 10) [alice_pr1, bob_pr, alice_pr2]
   \<and> (\<exists>es. rank_experts (\<lambda>_. None) (1 / 10) example_prs = Inr es
         \<and> [] \<notin> expert_author ` set es)"
proof -
  have f: "filter (\<lambda>p. get_author p \<noteq> []) example_prs = [alice_pr1, bob_pr, alice_pr2]"
    by (simp add: example_prs_def example_authors)
  obtain rs where rs: "ranked_experts (\<lambda>_. None) (1 / 10) example_prs = Inr rs"
    using ranked_experts_total by blast
  then have es: "rank_experts (\<lambda>_. None) (1 / 10) example_prs = Inr (filter_experts rs)"
    by (rule rank_experts_eq)
  from empty_author_discarded [of "\<lambda>_. None" "1 / 10" example_prs] es
  have "rank_experts (\<lambda>_. None) (1 / 10) example_prs
          = rank_experts (\<lambda>_. None) (1 / 10) [alice_pr1, bob_pr, alice_pr2]"
    and "[] \<notin> expert_author ` set (filter_experts rs)"
    unfolding f by auto
  then show ?thesis using es by blast
qed

theorem minimum_expertise_filter_witness:
  "(\<exists>experts es. ranked_experts (\<lambda>_. None) (1 / 10) example_prs = Inr experts
       \<and> rank_experts (\<lambda>_. None) (1 / 10) example_prs = Inr es
       \<and> ''bob'' \<in> expert_author ` set experts \<and> expert_author ` set es = {''alice''})
   \<and> (\<exists>experts es. ranked_experts (\<lambda>_. None) (1 / 10) [bob_pr] = Inr experts
       \<and> rank_experts (\<lambda>_. None) (1 / 10) [bob_pr] = Inr es
       \<and> es = experts \<and> ''bob'' \<in> expert_author ` set es)"
proof -
  let ?crit = "\<lambda>e. total_relevant_prs e \<ge> MIN_EXPERT_PRS
                  \<or> total_lines_changed e \<ge> MIN_EXPERT_TOTAL_LINES"
  obtain xs where xs: "ranked_experts (\<lambda>_. None) (1 / 10) example_prs = Inr xs"
    using ranked_experts_total by blast
  have crit_iff: "?crit e \<longleftrightarrow> expert_author e = ''alice''" if "e \<in> set xs" for e
    using example_expert_authors [OF xs that]
      ranked_expert_counts(1) [OF xs that] ranked_expert_counts(2) [OF xs that]
    by (auto simp: alice_group bob_group example_lines MIN_EXPERT_PRS_def MIN_EXPERT_TOTAL_LINES_def)
  have "alice_pr1 \<in> set example_prs" "get_author alice_pr1 \<noteq> []"
    by (simp_all add: example_prs_def example_authors)
  from ranked_experts_complete [OF xs this] obtain ea where
    ea: "ea \<in> set xs" "expert_author ea = ''alice''"
    by (auto simp: example_authors)
  have "bob_pr \<in> set example_prs" "get_author bob_pr \<noteq> []"
    by (simp_all add: example_prs_def example_authors)
  from ranked_experts_complete [OF xs this] obtain eb where
    eb: "eb \<in> set xs" "expert_author eb = ''bob''"
    by (auto simp: example_authors)
  from minimum_expertise_filter [OF xs] obtain es where
    es: "rank_experts (\<lambda>_. None) (1 / 10) example_prs = Inr es"
    and sel: "if \<exists>e\<in>set xs. ?crit e then es = filter ?crit xs else es = xs"
    by blast
  have "\<exists>e\<in>set xs. ?crit e" using ea crit_iff by blast
  with sel have "es = filter ?crit xs" by simp
  then have set_es: "set es = {e \<in> set xs. expert_author e = ''alice''}"
    using crit_iff by auto
  have "ea \<in> set es" using ea set_es by simp
  then have "expert_author ` set es = {''alice''}"
    using set_es ea(2) by auto
  then have part1: "\<exists>experts es. ranked_experts (\<lambda>_. None) (1 / 10) example_prs = Inr experts
       \<and> rank_experts (\<lambda>_. None) (1 / 10) example_prs = Inr es
       \<and> ''bob'' \<in> expert_author ` set experts \<and> expert_author ` set es = {''alice''}"
    using xs es eb by force
  obtain ys where ys: "ranked_experts (\<lambda>_. None) (1 / 10) [bob_pr] = Inr ys"
    using ranked_experts_total by blast
  have no: "\<not> ?crit e" if "e \<in> set ys" for e
  proof -
    have ne: "filter (\<lambda>p. get_author p = expert_author e) [bob_pr] \<noteq> []"
      using ranked_expert_counts(3) [OF ys that] .
    then have g: "filter (\<lambda>p. get_author p = expert_author e) [bob_pr] = [bob_pr]"
      by (simp split: if_splits)
    show ?thesis
      using ranked_expert_counts(1) [OF ys that] ranked_expert_counts(2) [OF ys that]
      unfolding g by (simp add: example_lines MIN_EXPERT_PRS_def MIN_EXPERT_TOTAL_LINES_def)
  qed
  have "bob_pr \<in> set [bob_pr]" "get_author bob_pr \<noteq> []"
    by (simp_all add: example_authors)
  from ranked_experts_complete [OF ys this] have b: "''bob'' \<in> expert_author ` set ys"
    unfolding example_authors by (metis imageI)
  from minimum_expertise_filter [OF ys] obtain zs where
    zs: "rank_experts (\<lambda>_. None) (1 / 10) [bob_pr] = Inr zs"
    and sel2: "if \<exists>e\<in>set ys. ?crit e then zs = filter ?crit ys else zs = ys"
    by blast
  have "zs = ys" using sel2 no by auto
  then have part2: "\<exists>experts es. ranked_experts (\<lambda>_. None) (1 / 10) [bob_pr] = Inr experts
       \<and> rank_experts (\<lambda>_. None) (1 / 10) [bob_pr] = Inr es
       \<and> es = experts \<and> ''bob'' \<in> expert_author ` set es"
    using ys zs b by blast
  show ?thesis using part1 part2 by (rule conjI)
qed

subsection \<open>The substantiality filter\<close>

lemma not_substantial: "(\<lambda>p. get_lines_changed p < MIN_SUBSTANTIAL_PR_LINES) = (\<lambda>p. \<not> substantial p)"
  by (auto simp: substantial_def)

lemma substantial_fun: "(\<lambda>p. get_lines_changed p \<ge> MIN_SUBSTANTIAL_PR_LINES) = substantial"
  by (auto simp: substantial_def)

lemma slice_top_up: "slice_to xs (max 10 (20 - int n)) = take (max 10 (20 - n)) xs"
proof -
  have "nat (max 10 (20 - int n)) = max 10 (20 - n)" by auto
  then show ?thesis by (simp add: slice_to_def)
qed

text \<open>
  Claim C3, as amended. With substantial meaning at least \<^const>\<open>MIN_SUBSTANTIAL_PR_LINES\<close>
  lines changed: when at least 20 candidates are substantial only these are kept; when
  between 1 and 19 are substantial they are all kept, followed by the largest
  non-substantial candidates, at most \<open>max 10 (20 - n)\<close> of them for \<open>n\<close> substantial ones;
  and when no candidate is substantial the candidate list is kept unchanged, whatever its
  length.
\<close>

theorem substantiality_filter_cases:
  "substantiality_filter results =
     (if filter substantial results = [] then results
      else claimed_substantiality_filter results)"
  by (simp add: substantiality_filter_def claimed_substantiality_filter_def Let_def
      not_substantial substantial_fun slice_top_up)

lemma example_substantial:
  "substantial alice_pr1" "substantial alice_pr2" "\<not> substantial bob_pr" "\<not> substantial anon_pr"
  by (simp_all add: substantial_def example_lines MIN_SUBSTANTIAL_PR_LINES_def)

text \<open>
  Claim C3 as stated includes the case of no substantial candidate in the top-up rule,
  which would keep the 20 largest candidates. Twenty-one candidates of 50 lines are all
  kept by \<^const>\<open>substantiality_filter\<close>.
\<close>

theorem substantiality_filter_counterexample:
  "length (substantiality_filter (replicate 21 bob_pr)) = 21
   \<and> length (claimed_substantiality_filter (replicate 21 bob_pr)) = 20
   \<and> substantiality_filter (replicate 21 bob_pr) \<noteq> claimed_substantiality_filter (replicate 21 bob_pr)"
proof -
  have a: "length (substantiality_filter (replicate 21 bob_pr)) = 21"
    by (simp add: substantiality_filter_def Let_def substantial_fun example_substantial)
  have b: "length (claimed_substantiality_filter (replicate 21 bob_pr)) = 20"
    by (simp add: claimed_substantiality_filter_def Let_def example_substantial length_sort_desc)
  from a b show ?thesis by auto
qed

lemma sort_desc_example: "sort_desc get_lines_changed [anon_pr, bob_pr] = [bob_pr, anon_pr]"
  by (simp add: sort_desc_def example_lines)

theorem substantiality_filter_cases_witness:
  "substantiality_filter [alice_pr1, anon_pr, bob_pr, alice_pr2] = [alice_pr1, alice_pr2, bob_pr, anon_pr]
   \<and> substantiality_filter [anon_pr, bob_pr] = [anon_pr, bob_pr]"
  using substantiality_filter_cases [of "[alice_pr1, anon_pr, bob_pr, alice_pr2]"]
    substantiality_filter_cases [of "[anon_pr, bob_pr]"]
  by (simp add: claimed_substantiality_filter_def example_substantial sort_desc_example)

subsection \<open>The record cache\<close>

text \<open>
  Claim C8. Freshness is monotone in the maximum age: a repository fresh for \<open>N\<close> days is
  fresh for every \<open>M \<ge> N\<close>. A repository is fresh for \<open>d\<close> days exactly when the index has
  an entry for it whose age in whole days is strictly less than \<open>d\<close>; without an entry it
  is not fresh.
\<close>

theorem is_cached_fresh:
  "(N \<le> M \<and> is_cached cm now r N \<longrightarrow> is_cached cm now r M)
   \<and> (is_cached cm now r d \<longleftrightarrow>
        (\<exists>e. index cm r = Some e \<and> days (now - cached_at e) < d))"
  by (auto simp: is_cached_def split: option.splits)

theorem is_cached_fresh_witness:
  "is_cached example_cache 262800000000 react 4 \<and> is_cached example_cache 262800000000 react 7
   \<and> \<not> is_cached example_cache 262800000000 react 3
   \<and> \<not> is_cached example_cache 262800000000 next_js 7"
proof -
  have i: "index example_cache react = Some example_entry" "index example_cache next_js = None"
    by (simp_all add: example_cache_def react_def next_js_def)
  have d: "days (262800000000 - cached_at example_entry) = 3"
    by (simp add: days_def example_entry_def)
  have 4: "is_cached example_cache 262800000000 react 4"
    using is_cached_fresh [of 4 4 example_cache 262800000000 react 4] i d by simp
  have 7: "is_cached example_cache 262800000000 react 7"
    using is_cached_fresh [of 4 7 example_cache 262800000000 react 7] 4 by simp
  have 3: "\<not> is_cached example_cache 262800000000 react 3"
    using is_cached_fresh [of 3 3 example_cache 262800000000 react 3] i d by simp
  have n: "\<not> is_cached example_cache 262800000000 next_js 7"
    using is_cached_fresh [of 7 7 example_cache 262800000000 next_js 7] i by simp
  from 4 7 3 n show ?thesis by simp
qed

text \<open>
  Claim C6, as amended. The cache read never raises: it returns the cached records when
  the index has an entry and the payload loads, and absent otherwise. The index entry is
  pruned exactly when the payload file is missing; when the payload is there but corrupt,
  absent is returned and the index entry stays. The payload files are never changed.
\<close>

theorem get_cached_prs_cases:
  "fst (get_cached_prs cm r) =
     (case index cm r of
        None \<Rightarrow> None
      | Some _ \<Rightarrow>
          (case files cm (get_repo_cache_path r) of
             Some (Payload prs) \<Rightarrow> Some prs
           | Some Corrupt \<Rightarrow> None
           | None \<Rightarrow> None))
   \<and> files (snd (get_cached_prs cm r)) = files cm
   \<and> index (snd (get_cached_prs cm r)) =
       (if index cm r \<noteq> None \<and> files cm (get_repo_cache_path r) = None
        then (index cm)(r := None) else index cm)"
  by (auto simp: get_cached_prs_def load_payload_def split: option.splits payload.splits)

lemma react_path: "get_repo_cache_path react = ''facebook_react.json''"
  by (simp add: get_repo_cache_path_def react_def)

text \<open>
  Claim C6 as stated has the index entry pruned for a corrupt payload too. On a cache whose
  payload for a repository is corrupt, the read returns absent and the entry is still in
  the index afterwards.
\<close>

theorem get_cached_prs_counterexample:
  "index corrupt_cache react = Some example_entry
   \<and> files corrupt_cache (get_repo_cache_path react) = Some Corrupt
   \<and> fst (get_cached_prs corrupt_cache react) = None
   \<and> index (snd (get_cached_prs corrupt_cache react)) react = Some example_entry"
  by (simp add: get_cached_prs_def load_payload_def corrupt_cache_def react_path)

theorem get_cached_prs_cases_witness:
  "fst (get_cached_prs example_cache react) = Some [alice_pr1]
   \<and> index (snd (get_cached_prs example_cache react)) react = Some example_entry
   \<and> fst (get_cached_prs dangling_cache react) = None
   \<and> index (snd (get_cached_prs dangling_cache react)) react = None
   \<and> fst (get_cached_prs corrupt_cache react) = None
   \<and> index (snd (get_cached_prs corrupt_cache react)) react = Some example_entry"
  using get_cached_prs_cases [of example_cache react] get_cached_prs_cases [of dangling_cache react]
    get_cached_prs_cases [of corrupt_cache react]
  by (simp add: example_cache_def dangling_cache_def corrupt_cache_def react_path)

subsection \<open>Embedding failures\<close>

lemma rank_experts_Nil: "rank_experts age w [] = Inr []"
  by (simp add: rank_experts_def ranked_experts_def group_by_author_def sort_desc_def
      filter_experts_def)

lemma find_experts_no_candidates:
  assumes "search (fst (generate_embedding em q)) TOP_K_RESULTS tf rf = Inr []"
  shows "fst (find_experts em search age q n tf rf w) = Inr []"
  using assms
  by (simp add: find_experts_def split_beta sort_desc_def substantiality_filter_def
      rank_experts_Nil slice_to_def)

text \<open>
  Claim C9, as amended. A failed embedding (not served from the embedding cache) degrades
  to the zero vector of the configured dimension, and the value returned by
  \<^const>\<open>find_experts\<close> is what the pipeline computes from the search results for that
  vector: it carries no mark of the failure. In particular when the search returns no
  candidate the value is the empty list, the value of a query without matching experts.
  Only an error of the search itself is passed on to the caller.
\<close>

theorem embedding_failure_not_reported:
  assumes "embedding_cache em q = None" and "encode em q = Inl err"
  shows "fst (generate_embedding em q) = replicate (dimension em) 0
    \<and> fst (find_experts em search age q n tf rf w) =
        (case search (replicate (dimension em) 0) TOP_K_RESULTS tf rf of
           Inl e \<Rightarrow> Inl e
         | Inr found \<Rightarrow>
             (case rank_experts age w (substantiality_filter (sort_desc get_similarity_score found)) of
                Inl e \<Rightarrow> Inl e
              | Inr experts \<Rightarrow> Inr (slice_to experts n)))
    \<and> (search (replicate (dimension em) 0) TOP_K_RESULTS tf rf = Inr [] \<longrightarrow>
         fst (find_experts em search age q n tf rf w) = Inr [])"
proof -
  have g: "generate_embedding em q = (replicate (dimension em) 0, em)"
    using assms by (simp add: generate_embedding_def)
  show ?thesis
    using find_experts_no_candidates [of search em q tf rf age n w]
    by (auto simp: g find_experts_def split: sum.splits)
qed

text \<open>
  Claim C9 as stated says that a run with a failed embedding and a run on an empty corpus
  never return the same value. On an empty collection, a run whose embedding fails and a
  run whose embedding succeeds both return the empty list.
\<close>

theorem embedding_failure_counterexample:
  "encode failing_embedder ''graphql caching'' = Inl (EmbedError ''service down'')
   \<and> encode working_embedder ''graphql caching'' = Inr [1 / 2, 1 / 2, 0]
   \<and> fst (find_experts failing_embedder empty_collection (\<lambda>_. None) ''graphql caching'' 10 None None (1 / 10))
       = Inr []
   \<and> fst (find_experts working_embedder empty_collection (\<lambda>_. None) ''graphql caching'' 10 None None (1 / 10))
       = Inr []"
  by (simp add: find_experts_no_candidates empty_collection_def failing_embedder_def working_embedder_def)

theorem embedding_failure_not_reported_witness:
  "fst (generate_embedding failing_embedder ''graphql caching'') = [0, 0, 0]
   \<and> fst (find_experts failing_embedder empty_collection (\<lambda>_. None) ''graphql caching'' 10 None None (1 / 10))
       = Inr []"
proof -
  have "embedding_cache failing_embedder ''graphql caching'' = None"
    and "encode failing_embedder ''graphql caching'' = Inl (EmbedError ''service down'')"
    by (simp_all add: failing_embedder_def)
  from embedding_failure_not_reported [OF this, where search = empty_collection and tf = None
      and rf = None and age = "\<lambda>_. None" and n = 10 and w = "1 / 10"]
  have v: "fst (generate_embedding failing_embedder ''graphql caching'')
             = replicate (dimension failing_embedder) 0"
    and r: "empty_collection (replicate (dimension failing_embedder) 0) TOP_K_RESULTS None None = Inr []
          \<longrightarrow> fst (find_experts failing_embedder empty_collection (\<lambda>_. None) ''graphql caching'' 10
                  None None (1 / 10)) = Inr []"
    by blast+
  have "replicate (dimension failing_embedder) (0::real) = [0, 0, 0]"
    by (simp add: failing_embedder_def numeral_3_eq_3)
  with v r show ?thesis
    by (simp add: empty_collection_def)
qed

subsection \<open>Fetching a batch of repositories\<close>

lemma get_cached_prs_idem:
  "get_cached_prs (snd (get_cached_prs cm r)) r = get_cached_prs cm r"
  by (auto simp: get_cached_prs_def load_payload_def split: option.splits payload.splits sum.splits)

lemma scrape_fresh_failing:
  assumes "scraper r = Inl err"
  shows "scrape_fresh scraper now (acc, cm) r = (acc @ cached_records cm r, snd (get_cached_prs cm r))"
  using assms
  by (auto simp: scrape_fresh_def cached_records_def split: prod.splits option.splits)

lemma scrape_step_failing:
  assumes "scraper r = Inl err"
  shows "scrape_step scraper now force age (acc, cm) r
           = (acc @ cached_records cm r, snd (get_cached_prs cm r))"
proof -
  note ff = scrape_fresh_failing [where scraper = scraper and r = r and err = err, OF assms]
  show ?thesis
  proof (cases "\<not> force \<and> is_cached cm now r age")
  case False
  then show ?thesis
    by (auto simp: scrape_step_def ff)
next
  case True
  obtain c cm' where g: "get_cached_prs cm r = (c, cm')" by (cases "get_cached_prs cm r")
  have idem: "get_cached_prs cm' r = (c, cm')"
    using get_cached_prs_idem [of cm r] g by simp
  have hit: "cm' = cm" if "c = Some prs" for prs
    using g that by (auto simp: get_cached_prs_def split: option.splits sum.splits)
  show ?thesis
  proof (cases c)
    case None
    then show ?thesis
      using True g idem
      by (simp add: scrape_step_def ff cached_records_def)
  next
    case (Some prs)
    then show ?thesis
      using True g idem hit [OF Some]
      by (simp add: scrape_step_def ff cached_records_def)
  qed
qed
qed

lemma scrape_fresh_acc:
  "scrape_fresh scraper now (acc, cm) r =
     (acc @ fst (scrape_fresh scraper now ([], cm) r), snd (scrape_fresh scraper now ([], cm) r))"
  by (auto simp: scrape_fresh_def split: sum.splits prod.splits option.splits)

lemma scrape_step_acc:
  "scrape_step scraper now force age (acc, cm) r =
     (acc @ fst (scrape_step scraper now force age ([], cm) r),
      snd (scrape_step scraper now force age ([], cm) r))"
  using scrape_fresh_acc [of scraper now acc _ r]
  by (auto simp: scrape_step_def split: prod.splits option.splits)

lemma scrape_loop_acc:
  "foldl (scrape_step scraper now force age) (acc, cm) rs =
     (acc @ fst (foldl (scrape_step scraper now force age) ([], cm) rs),
      snd (foldl (scrape_step scraper now force age) ([], cm) rs))"
proof (induction rs arbitrary: acc cm)
  case Nil
  then show ?case by simp
next
  case (Cons r rs)
  let ?step = "scrape_step scraper now force age"
  obtain a1 c1 where s: "?step ([], cm) r = (a1, c1)" by (cases "?step ([], cm) r")
  have s': "?step (acc, cm) r = (acc @ a1, c1)"
    using scrape_step_acc [of scraper now force age acc cm r] s by simp
  show ?case
    using Cons.IH [of "acc @ a1" c1] Cons.IH [of a1 c1] by (simp add: s s')
qed

lemma agree_except_get:
  "agree_except x cm (snd (get_cached_prs cm x))"
  by (auto simp: agree_except_def get_cached_prs_def split: option.splits sum.splits)

lemma agree_is_cached:
  "agree_except x cm cm' \<Longrightarrow> r \<noteq> x \<Longrightarrow> is_cached cm now r age = is_cached cm' now r age"
  by (simp add: agree_except_def is_cached_def)

lemma agree_get_cached_prs:
  assumes "agree_except x cm cm'" and "r \<noteq> x"
  shows "fst (get_cached_prs cm r) = fst (get_cached_prs cm' r)"
    and "agree_except x (snd (get_cached_prs cm r)) (snd (get_cached_prs cm' r))"
  using assms
  by (auto simp: agree_except_def get_cached_prs_def split: option.splits sum.splits)

lemma agree_cache_prs:
  "agree_except x cm cm' \<Longrightarrow> agree_except x (cache_prs cm now r prs) (cache_prs cm' now r prs)"
  by (simp add: agree_except_def cache_prs_def Let_def)

lemma agree_scrape_fresh:
  assumes "agree_except x cm cm'" and "r \<noteq> x"
  shows "fst (scrape_fresh scraper now (acc, cm) r) = fst (scrape_fresh scraper now (acc, cm') r)"
    and "agree_except x (snd (scrape_fresh scraper now (acc, cm) r))
           (snd (scrape_fresh scraper now (acc, cm') r))"
  using agree_get_cached_prs [OF assms] agree_cache_prs [OF assms(1)]
  by (auto simp: scrape_fresh_def split: sum.splits prod.splits option.splits)

lemma agree_scrape_step:
  assumes "agree_except x cm cm'" and "r \<noteq> x"
  shows "fst (scrape_step scraper now force age (acc, cm) r)
           = fst (scrape_step scraper now force age (acc, cm') r)"
    and "agree_except x (snd (scrape_step scraper now force age (acc, cm) r))
           (snd (scrape_step scraper now force age (acc, cm') r))"
proof -
  obtain c c1 where g: "get_cached_prs cm r = (c, c1)" by (cases "get_cached_prs cm r")
  obtain c' c1' where g': "get_cached_prs cm' r = (c', c1')" by (cases "get_cached_prs cm' r")
  have cc: "c' = c" and a1: "agree_except x c1 c1'"
    using agree_get_cached_prs [OF assms] g g' by simp_all
  note fr = agree_scrape_fresh [OF assms, of scraper now acc]
  note fr1 = agree_scrape_fresh [OF a1 assms(2), of scraper now acc]
  note ic = agree_is_cached [OF assms, of now age]
  show "fst (scrape_step scraper now force age (acc, cm) r)
           = fst (scrape_step scraper now force age (acc, cm') r)"
    using fr(1) fr1(1) a1
    by (simp add: scrape_step_def ic g g' cc split: option.splits)
  show "agree_except x (snd (scrape_step scraper now force age (acc, cm) r))
           (snd (scrape_step scraper now force age (acc, cm') r))"
    using fr(2) fr1(2) a1
    by (simp add: scrape_step_def ic g g' cc split: option.splits)
qed

lemma agree_scrape_loop:
  assumes "agree_except x cm cm'" and "x \<notin> set rs"
  shows "fst (foldl (scrape_step scraper now force age) (acc, cm) rs)
           = fst (foldl (scrape_step scraper now force age) (acc, cm') rs)"
  using assms
proof (induction rs arbitrary: acc cm cm')
  case Nil
  then show ?case by simp
next
  case (Cons r rs)
  let ?step = "scrape_step scraper now force age"
  have rx: "r \<noteq> x" and xs: "x \<notin> set rs" using Cons.prems(2) by auto
  obtain a1 c1 where s: "?step (acc, cm) r = (a1, c1)" by (cases "?step (acc, cm) r")
  obtain a2 c2 where s': "?step (acc, cm') r = (a2, c2)" by (cases "?step (acc, cm') r")
  have "a2 = a1" and "agree_except x c1 c2"
    using agree_scrape_step [OF Cons.prems(1) rx, of scraper now force age acc] s s' by simp_all
  then show ?case
    using Cons.IH [OF _ xs, of c1 c2 a1] by (simp add: s s')
qed

text \<open>
  Claim C5. When the fetch function raises for a repository \<open>x\<close> of the list, the batch
  does not stop: its result is the records obtained for the repositories before \<open>x\<close>,
  followed by what the cache serves for \<open>x\<close> (its cached records, stale or not, and nothing
  when there is no readable cache entry), followed by the records of the repositories after
  \<open>x\<close>, which are those obtained when \<open>x\<close> is not in the list. The exception of the fetch
  function is the value \<open>Inl err\<close>, consumed by the fallback; the function has no other
  way to raise.
\<close>

theorem failing_repo_falls_back:
  assumes "scraper x = Inl err" and "x \<notin> set post"
  shows "fst (get_or_scrape_repos (pre @ x # post) scraper cm now force age) =
           (let (before, cm1) = get_or_scrape_repos pre scraper cm now force age
            in before @ cached_records cm1 x
                 @ fst (get_or_scrape_repos post scraper cm1 now force age))"
proof -
  let ?step = "scrape_step scraper now force age"
  obtain before cm1 where p: "foldl ?step ([], cm) pre = (before, cm1)"
    by (cases "foldl ?step ([], cm) pre")
  let ?cm2 = "snd (get_cached_prs cm1 x)"
  have "foldl ?step ([], cm) (pre @ x # post)
          = foldl ?step (before @ cached_records cm1 x, ?cm2) post"
    by (simp add: p scrape_step_failing [where scraper = scraper and err = err, OF assms(1)])
  also have "fst \<dots> = (before @ cached_records cm1 x) @ fst (foldl ?step ([], ?cm2) post)"
    using scrape_loop_acc [of scraper now force age "before @ cached_records cm1 x" ?cm2 post]
    by simp
  also have "fst (foldl ?step ([], ?cm2) post) = fst (foldl ?step ([], cm1) post)"
  proof -
    have "agree_except x cm1 ?cm2" by (rule agree_except_get)
    from agree_scrape_loop [OF this assms(2)] show ?thesis by simp
  qed
  finally show ?thesis
    by (simp add: get_or_scrape_repos_def p)
qed

lemma example_scraper_simps:
  "example_scraper react = Inl (ScrapeError ''rate limit'')" "example_scraper next_js = Inr [bob_pr]"
  "react \<noteq> next_js"
  by (simp_all add: example_scraper_def react_def next_js_def)

lemma example_next_js:
  "index cm next_js = None \<Longrightarrow>
     fst (get_or_scrape_repos [next_js] example_scraper cm now False age) = [bob_pr]"
  by (simp add: get_or_scrape_repos_def scrape_step_def is_cached_def scrape_fresh_def
      example_scraper_simps)

theorem failing_repo_falls_back_witness:
  "fst (get_or_scrape_repos [react, next_js] example_scraper example_cache 864000000000 False 7)
     = [alice_pr1, bob_pr]
   \<and> fst (get_or_scrape_repos [react, next_js] example_scraper dangling_cache 864000000000 False 7)
     = [bob_pr]"
proof -
  have x: "react \<notin> set [next_js]" by (simp add: example_scraper_simps)
  have c1: "cached_records example_cache react = [alice_pr1]"
    by (simp add: cached_records_def get_cached_prs_def load_payload_def example_cache_def react_path)
  have c2: "cached_records dangling_cache react = []"
    by (simp add: cached_records_def get_cached_prs_def dangling_cache_def react_path)
  have n1: "index example_cache next_js = None" "index dangling_cache next_js = None"
    using example_scraper_simps(3) by (auto simp: example_cache_def dangling_cache_def)
  have e: "get_or_scrape_repos [] example_scraper cm now False 7 = ([], cm)" for cm now
    by (simp add: get_or_scrape_repos_def)
  from failing_repo_falls_back [where scraper = example_scraper and x = react and post = "[next_js]"
      and pre = "[]" and cm = example_cache and now = 864000000000 and force = False and age = 7,
      OF example_scraper_simps(1) x]
  have a: "fst (get_or_scrape_repos [react, next_js] example_scraper example_cache 864000000000 False 7)
     = [alice_pr1, bob_pr]"
    by (simp add: e c1 example_next_js [OF n1(1)])
  from failing_repo_falls_back [where scraper = example_scraper and x = react and post = "[next_js]"
      and pre = "[]" and cm = dangling_cache and now = 864000000000 and force = False and age = 7,
      OF example_scraper_simps(1) x]
  have b: "fst (get_or_scrape_repos [react, next_js] example_scraper dangling_cache 864000000000 False 7)
     = [bob_pr]"
    by (simp add: e c2 example_next_js [OF n1(2)])
  from a b show ?thesis by simp
qed

end
